theory Spec2Isabelle
  imports Main
begin

section \<open>React elements\<close>

text \<open>
  \<open>render()\<close> returns a tree of React elements. An element has a type (a host tag such
  as \<open>div\<close>, the fragment \<open><>...</>\<close>, or one of the imported components \<open>Link\<close> and
  \<open>Guild\<close>, which \<open>render()\<close> does not expand), an optional \<open>key\<close>, its props and its
  children. A piece of text between tags is a text child.

  A guild is an object of the API; the view reads its \<open>id\<close>, a string, here the field
  \<open>guild_id\<close> (\<open>id\<close> is HOL's identity function), and hands the whole object on to the
  \<open>Guild\<close> component.
\<close>

record guild =
  guild_id :: string
  name :: string

datatype elem_type = Host string | Fragment | Link | Guild

datatype prop_value = PStr string | PGuild guild

datatype element =
    Text string
  | Element elem_type "string option" "(string \<times> prop_value) list" "element list"

section \<open>The Guilds view (web/src/views/Guilds.js)\<close>

text \<open>\<open>this.state\<close>: the field \<open>guilds\<close> is \<open>null\<close> (here \<open>None\<close>) or the fetched array.\<close>

record state =
  guilds :: "guild list option"

definition initial_state :: state where
  "initial_state = \<lparr>guilds = None\<rparr>"

text \<open>
  The arrow function mapped over \<open>guilds\<close>:
  \<open><li key={guild.id}><Link to={`/guild/${guild.id}`}><Guild guild={guild} /></Link></li>\<close>.
\<close>

definition guildNode :: "guild \<Rightarrow> element" where
  "guildNode g =
     Element (Host ''li'') (Some (guild_id g)) []
       [Element Link None [(''to'', PStr (''/guild/'' @ guild_id g))]
          [Element Guild None [(''guild'', PGuild g)] []]]"

text \<open>The local variable \<open>content\<close> of \<open>render()\<close>, with the three branches in source order.\<close>

definition content :: "state \<Rightarrow> element" where
  "content s =
     (case guilds s of
        None \<Rightarrow> Element (Host ''p'') None [] [Text ''Loading servers...'']
      | Some gs \<Rightarrow>
          if length gs \<noteq> 0 then
            (let guildNodes = map guildNode gs in
             Element Fragment None []
               [Element (Host ''p'') None []
                  [Text ''Click on a server below to edit its configuration:''],
                Element (Host ''ul'') None [(''className'', PStr ''guild-list'')] guildNodes])
          else Element (Host ''p'') None [] [Text ''No servers.''])"

definition render :: "state \<Rightarrow> element" where
  "render s =
     Element (Host ''div'') None [(''id'', PStr ''guilds'')]
       [Element (Host ''h2'') None [] [Text ''Servers''], content s]"

subsection \<open>Reading a rendered tree\<close>

text \<open>The children of an element, and every text of a tree from left to right.\<close>

fun children :: "element \<Rightarrow> element list" where
  "children (Text t) = []"
| "children (Element ty k ps cs) = cs"

fun texts :: "element \<Rightarrow> string list" where
  "texts (Text t) = [t]"
| "texts (Element ty k ps cs) = concat (map texts cs)"

text \<open>Every element of a given type in a tree, in document order (outer before inner).\<close>

fun elements_of :: "elem_type \<Rightarrow> element \<Rightarrow> element list" where
  "elements_of ty (Text t) = []"
| "elements_of ty (Element ty' k ps cs) =
     (if ty' = ty then [Element ty' k ps cs] else []) @ concat (map (elements_of ty) cs)"

fun key_of :: "element \<Rightarrow> string option" where
  "key_of (Text t) = None"
| "key_of (Element ty k ps cs) = k"

fun props_of :: "element \<Rightarrow> (string \<times> prop_value) list" where
  "props_of (Text t) = []"
| "props_of (Element ty k ps cs) = ps"

fun type_of :: "element \<Rightarrow> elem_type option" where
  "type_of (Text t) = None"
| "type_of (Element ty k ps cs) = Some ty"

text \<open>The \<open>to\<close> targets of the links inside an element.\<close>

definition link_targets :: "element \<Rightarrow> prop_value option list" where
  "link_targets e = map (\<lambda>l. map_of (props_of l) ''to'') (elements_of Link e)"

subsection \<open>Lifecycle of one view instance\<close>

text \<open>
  \<open>componentDidMount\<close> is an \<open>async\<close> method: called, it runs up to the \<open>await\<close>, which
  calls \<open>API.get('/api/guilds')\<close> and suspends on the promise that call returns. When the
  promise is fulfilled with a value the method resumes and calls
  \<open>this.setState({ guilds })\<close>; when the promise is rejected the \<open>await\<close> throws, nothing
  catches it, and the rest of the method is never run.

  The module \<open>../api\<close> is a collaborator: \<open>API.get\<close> is recorded as a call, and the
  outcome of its promise is an event from outside, carrying the array of guilds that the
  endpoint answers with.
\<close>

datatype api_call = Get string

datatype promise = NotCalled | Pending | Fulfilled | Rejected

record Guilds =
  state :: state
  mounted :: bool
  fetch :: promise
  calls :: "api_call list"

definition constructed :: Guilds where
  "constructed = \<lparr>state = initial_state, mounted = False, fetch = NotCalled, calls = []\<rparr>"

definition setState :: "guild list \<Rightarrow> Guilds \<Rightarrow> Guilds" where
  "setState gs c = c\<lparr>state := (state c)\<lparr>guilds := Some gs\<rparr>\<rparr>"

text \<open>The part of \<open>componentDidMount\<close> before the \<open>await\<close> completes, and the part after it.\<close>

definition componentDidMount :: "Guilds \<Rightarrow> Guilds" where
  "componentDidMount c = c\<lparr>mounted := True, fetch := Pending, calls := calls c @ [Get ''/api/guilds'']\<rparr>"

definition componentDidMount_resume :: "guild list \<Rightarrow> Guilds \<Rightarrow> Guilds" where
  "componentDidMount_resume gs c = setState gs c"

text \<open>
  What happens to an instance, one event at a time, on the single-threaded event loop:
  React mounts it (it calls \<open>componentDidMount\<close> once per instance), React calls
  \<open>render()\<close> (which reads \<open>this.state\<close> and changes nothing), or the pending promise
  settles (a promise settles at most once). An event that cannot happen in a state
  yields \<open>None\<close>.
\<close>

datatype event = Mount | Render | Fulfil "guild list" | Reject

fun step :: "event \<Rightarrow> Guilds \<Rightarrow> Guilds option" where
  "step Mount c = (if mounted c then None else Some (componentDidMount c))"
| "step Render c = Some c"
| "step (Fulfil gs) c =
     (if fetch c = Pending then Some (componentDidMount_resume gs (c\<lparr>fetch := Fulfilled\<rparr>))
      else None)"
| "step Reject c = (if fetch c = Pending then Some (c\<lparr>fetch := Rejected\<rparr>) else None)"

fun run :: "event list \<Rightarrow> Guilds \<Rightarrow> Guilds option" where
  "run [] c = Some c"
| "run (e # es) c = (case step e c of None \<Rightarrow> None | Some c' \<Rightarrow> run es c')"

text \<open>
  The view state of the specification, read off \<open>this.state.guilds\<close>, and the view states
  an instance goes through along a sequence of events, the starting one first.
\<close>

datatype ViewState = Loading | Loaded "guild list"

definition view :: "Guilds \<Rightarrow> ViewState" where
  "view c = (case guilds (state c) of None \<Rightarrow> Loading | Some gs \<Rightarrow> Loaded gs)"

fun history :: "event list \<Rightarrow> Guilds \<Rightarrow> ViewState list" where
  "history [] c = [view c]"
| "history (e # es) c =
     view c # (case step e c of None \<Rightarrow> [] | Some c' \<Rightarrow> history es c')"

text \<open>The number of places in a sequence where the next entry differs from the current one.\<close>

fun transitions :: "'a list \<Rightarrow> nat" where
  "transitions (x # y # zs) = (if x \<noteq> y then 1 else 0) + transitions (y # zs)"
| "transitions zs = 0"

text \<open>
  What holds of an instance at every moment of its life: it is mounted exactly when
  \<open>API.get\<close> has been called, its array is stored exactly when the promise has been
  fulfilled, and it has called the API once if mounted and not at all otherwise.
\<close>

definition consistent :: "Guilds \<Rightarrow> bool" where
  "consistent c \<longleftrightarrow>
     (mounted c \<longleftrightarrow> fetch c \<noteq> NotCalled)
     \<and> (fetch c = Fulfilled \<longleftrightarrow> guilds (state c) \<noteq> None)
     \<and> calls c = (if mounted c then [Get ''/api/guilds''] else [])"

section \<open>The Notice component (web/src/components/Notice.js)\<close>

text \<open>
  The values that the two interpolated functions of the styled template handle: a
  string, an array, \<open>undefined\<close>, and a member that every object literal inherits from
  \<open>Object.prototype\<close> (a function, or the prototype object itself for \<open>__proto__\<close>).
\<close>

datatype jsval = Undefined | Str string | Array "jsval list" | Inherited string

datatype js_error = TypeError

definition MOODS :: "(string \<times> jsval) list" where
  "MOODS =
    [(''default'', Array [Str ''hsl(220, 100%, 85%)'', Str ''hsl(220, 100%, 95%)'']),
     (''danger'', Array [Str ''hsl(0, 100%, 85%)'', Str ''hsl(0, 100%, 95%)'']),
     (''success'', Array [Str ''hsl(120, 100%, 75%)'', Str ''hsl(120, 100%, 95%)''])]"

text \<open>
  \<open>obj[key]\<close> on an object literal finds an own property first and then the members of
  \<open>Object.prototype\<close>; any other key gives \<open>undefined\<close>.
\<close>

definition Object_prototype :: "string list" where
  "Object_prototype =
    [''constructor'', ''hasOwnProperty'', ''isPrototypeOf'', ''propertyIsEnumerable'',
     ''toLocaleString'', ''toString'', ''valueOf'', ''__proto__'', ''__defineGetter__'',
     ''__defineSetter__'', ''__lookupGetter__'', ''__lookupSetter__'']"

definition property :: "(string \<times> jsval) list \<Rightarrow> string \<Rightarrow> jsval" where
  "property obj k =
     (case map_of obj k of
        Some v \<Rightarrow> v
      | None \<Rightarrow> if k \<in> set Object_prototype then Inherited k else Undefined)"

text \<open>
  \<open>v[i]\<close>: reading an index of \<open>undefined\<close> throws a TypeError; an array or a string
  gives its element, or \<open>undefined\<close> past the end; a function or plain object has no
  indexed property.
\<close>

fun index :: "jsval \<Rightarrow> nat \<Rightarrow> js_error + jsval" where
  "index Undefined i = Inl TypeError"
| "index (Array xs) i = Inr (if i < length xs then xs ! i else Undefined)"
| "index (Str s) i = Inr (if i < length s then Str [s ! i] else Undefined)"
| "index (Inherited k) i = Inr Undefined"

text \<open>
  The props of a \<open>Notice\<close>: \<open>mood\<close> is absent (\<open>None\<close>) or a string. The destructuring
  \<open>{ mood = 'default' }\<close> replaces an absent \<open>mood\<close> by \<open>'default'\<close>.
\<close>

record props =
  mood :: "string option"

definition mood_or_default :: "'a props_scheme \<Rightarrow> string" where
  "mood_or_default p = (case mood p of None \<Rightarrow> ''default'' | Some m \<Rightarrow> m)"

text \<open>The two interpolations: \<open>MOODS[mood][0]\<close> for the border, \<open>MOODS[mood][1]\<close> for the background.\<close>

definition border :: "'a props_scheme \<Rightarrow> js_error + jsval" where
  "border p = index (property MOODS (mood_or_default p)) 0"

definition background :: "'a props_scheme \<Rightarrow> js_error + jsval" where
  "background p = index (property MOODS (mood_or_default p)) 1"

text \<open>
  The declarations of the styled \<open>div\<close>, one per line of the template. An interpolation
  that gives \<open>undefined\<close> contributes no text; one that throws makes the whole rendering
  throw.
\<close>

fun interpolate :: "jsval \<Rightarrow> string" where
  "interpolate (Str s) = s"
| "interpolate v = []"

definition Notice :: "'a props_scheme \<Rightarrow> js_error + string list" where
  "Notice p =
     (case border p of
        Inl e \<Rightarrow> Inl e
      | Inr b \<Rightarrow>
          (case background p of
             Inl e \<Rightarrow> Inl e
           | Inr g \<Rightarrow>
               Inr [''padding: 0.5em 1em;'',
                    ''border: solid 1px '' @ interpolate b @ '';'',
                    ''background: '' @ interpolate g @ '';'',
                    ''border-radius: 0.15rem;'',
                    ''margin: 1rem 0;'']))"

text \<open>The colour that a lookup produced, if it produced one.\<close>

fun colour :: "js_error + jsval \<Rightarrow> string option" where
  "colour (Inr (Str s)) = Some s"
| "colour r = None"

section \<open>Rendering\<close>

lemma elements_of_guildNode:
  "elements_of (Host ''li'') (guildNode g) = [guildNode g]"
  "elements_of Link (guildNode g) =
     [Element Link None [(''to'', PStr (''/guild/'' @ guild_id g))]
        [Element Guild None [(''guild'', PGuild g)] []]]"
  "elements_of Guild (guildNode g) = [Element Guild None [(''guild'', PGuild g)] []]"
  "elements_of (Host ''ul'') (guildNode g) = []"
  by (simp_all add: guildNode_def)

lemma li_of_guildNodes:
  "concat (map (elements_of (Host ''li'') \<circ> guildNode) gs) = map guildNode gs"
  by (induction gs) (simp_all add: elements_of_guildNode)

lemma ul_of_guildNodes:
  "concat (map (elements_of (Host ''ul'') \<circ> guildNode) gs) = []"
  by (induction gs) (simp_all add: elements_of_guildNode)

lemma other_of_guildNodes:
  "ty \<noteq> Host ''li'' \<Longrightarrow> ty \<noteq> Link \<Longrightarrow> ty \<noteq> Guild
   \<Longrightarrow> concat (map (elements_of ty \<circ> guildNode) gs) = []"
  by (induction gs) (simp_all add: guildNode_def)

lemma list_items_render:
  "elements_of (Host ''li'') (render \<lparr>guilds = Some gs\<rparr>) = map guildNode gs"
  by (cases gs) (simp_all add: render_def content_def li_of_guildNodes elements_of_guildNode)

lemma key_of_guildNode: "key_of (guildNode g) = Some (guild_id g)"
  by (simp add: guildNode_def)

lemma link_targets_guildNode:
  "link_targets (guildNode g) = [Some (PStr (''/guild/'' @ guild_id g))]"
  by (simp add: link_targets_def elements_of_guildNode)

text \<open>
  C1. For a non-empty fetched guild list, the rendered view holds exactly one list item
  (\<open>li\<close>) per guild; the item of each guild is keyed by that guild's id and contains one
  link, whose target is \<open>/guild/\<close> followed by that id.
\<close>

theorem render_one_item_per_guild:
  assumes "gs \<noteq> []"
  shows "length (elements_of (Host ''li'') (render \<lparr>guilds = Some gs\<rparr>)) = length gs
    \<and> (\<forall>i < length gs.
          key_of (elements_of (Host ''li'') (render \<lparr>guilds = Some gs\<rparr>) ! i)
            = Some (guild_id (gs ! i))
        \<and> link_targets (elements_of (Host ''li'') (render \<lparr>guilds = Some gs\<rparr>) ! i)
            = [Some (PStr (''/guild/'' @ guild_id (gs ! i)))])"
  by (simp add: list_items_render key_of_guildNode link_targets_guildNode)

theorem render_one_item_per_guild_witness:
  "[\<lparr>guild_id = ''7'', name = ''a''\<rparr>, \<lparr>guild_id = ''42'', name = ''b''\<rparr>] \<noteq> []
   \<and> length (elements_of (Host ''li'')
        (render \<lparr>guilds = Some [\<lparr>guild_id = ''7'', name = ''a''\<rparr>,
                                \<lparr>guild_id = ''42'', name = ''b''\<rparr>]\<rparr>)) = 2
   \<and> key_of (elements_of (Host ''li'')
        (render \<lparr>guilds = Some [\<lparr>guild_id = ''7'', name = ''a''\<rparr>,
                                \<lparr>guild_id = ''42'', name = ''b''\<rparr>]\<rparr>) ! 1) = Some ''42''
   \<and> link_targets (elements_of (Host ''li'')
        (render \<lparr>guilds = Some [\<lparr>guild_id = ''7'', name = ''a''\<rparr>,
                                \<lparr>guild_id = ''42'', name = ''b''\<rparr>]\<rparr>) ! 1)
       = [Some (PStr ''/guild/42'')]"
  using render_one_item_per_guild
    [of "[\<lparr>guild_id = ''7'', name = ''a''\<rparr>, \<lparr>guild_id = ''42'', name = ''b''\<rparr>]"]
  by simp

text \<open>
  C2. When the fetched guild list is empty, the content of the Guilds view is the
  paragraph with the literal text "No servers.", and that is the only text of the view
  besides its heading.
\<close>

theorem render_empty_no_servers:
  "content \<lparr>guilds = Some []\<rparr> = Element (Host ''p'') None [] [Text ''No servers.'']
   \<and> children (render \<lparr>guilds = Some []\<rparr>) ! 1 = content \<lparr>guilds = Some []\<rparr>
   \<and> texts (render \<lparr>guilds = Some []\<rparr>) = [''Servers'', ''No servers.'']"
  by (simp add: content_def render_def)

text \<open>
  C9. For every fetched guild list, the list items of the rendered view follow the order
  of the guilds in the array: their keys, their link targets and the guilds handed to the
  \<open>Guild\<close> components inside them are the images of the array, position by position, and
  they are the children of the \<open>ul\<close> in that order.
\<close>

theorem render_items_in_order:
  "map key_of (elements_of (Host ''li'') (render \<lparr>guilds = Some gs\<rparr>))
     = map (\<lambda>g. Some (guild_id g)) gs
   \<and> map link_targets (elements_of (Host ''li'') (render \<lparr>guilds = Some gs\<rparr>))
       = map (\<lambda>g. [Some (PStr (''/guild/'' @ guild_id g))]) gs
   \<and> map (elements_of Guild) (elements_of (Host ''li'') (render \<lparr>guilds = Some gs\<rparr>))
       = map (\<lambda>g. [Element Guild None [(''guild'', PGuild g)] []]) gs
   \<and> concat (map children (elements_of (Host ''ul'') (render \<lparr>guilds = Some gs\<rparr>)))
       = elements_of (Host ''li'') (render \<lparr>guilds = Some gs\<rparr>)"
  apply (simp add: list_items_render key_of_guildNode link_targets_guildNode
                   elements_of_guildNode comp_def)
  apply (cases gs)
   apply (simp_all add: render_def content_def ul_of_guildNodes elements_of_guildNode)
  done

text \<open>
  C10. In every state the view renders the same outer container, a \<open>div\<close> with id
  \<open>guilds\<close>, whose first child is the heading \<open>Servers\<close>; its only other child is the
  content block, the one part that depends on the state. The container is the only
  \<open>div\<close> and the heading the only \<open>h2\<close> of the whole tree.
\<close>

theorem render_frame:
  "type_of (render s) = Some (Host ''div'')
   \<and> key_of (render s) = None
   \<and> props_of (render s) = [(''id'', PStr ''guilds'')]
   \<and> children (render s) = [Element (Host ''h2'') None [] [Text ''Servers''], content s]
   \<and> elements_of (Host ''div'') (render s) = [render s]
   \<and> elements_of (Host ''h2'') (render s) = [Element (Host ''h2'') None [] [Text ''Servers'']]
   \<and> hd (texts (render s)) = ''Servers''"
proof -
  have no_div: "elements_of (Host ''div'') (content s) = []"
    by (simp add: content_def other_of_guildNodes split: option.splits)
  have no_h2: "elements_of (Host ''h2'') (content s) = []"
    by (simp add: content_def other_of_guildNodes split: option.splits)
  show ?thesis using no_div no_h2 by (simp add: render_def)
qed

section \<open>Lifecycle\<close>

lemma consistent_constructed: "consistent constructed"
  by (simp add: consistent_def constructed_def initial_state_def)

lemma step_consistent: "consistent c \<Longrightarrow> step e c = Some c' \<Longrightarrow> consistent c'"
  by (cases e)
     (auto simp: consistent_def componentDidMount_def componentDidMount_resume_def
                 setState_def split: if_splits)

lemma run_consistent: "consistent c \<Longrightarrow> run es c = Some c' \<Longrightarrow> consistent c'"
proof (induction es arbitrary: c)
  case Nil
  then show ?case by simp
next
  case (Cons e es)
  then show ?case by (auto split: option.splits dest: step_consistent)
qed

lemma step_settled:
  "mounted c \<Longrightarrow> fetch c \<noteq> Pending \<Longrightarrow> step e c = Some c' \<Longrightarrow> c' = c"
  by (cases e) (auto split: if_splits)

lemma run_settled:
  "mounted c \<Longrightarrow> fetch c \<noteq> Pending \<Longrightarrow> run es c = Some c' \<Longrightarrow> c' = c"
proof (induction es arbitrary: c)
  case Nil
  then show ?case by simp
next
  case (Cons e es)
  then show ?case by (auto split: option.splits dest: step_settled)
qed

lemma history_settled:
  "mounted c \<Longrightarrow> fetch c \<noteq> Pending \<Longrightarrow> run es c = Some c'
   \<Longrightarrow> history es c = replicate (Suc (length es)) (view c)"
proof (induction es arbitrary: c)
  case Nil
  then show ?case by simp
next
  case (Cons e es)
  from Cons.prems obtain d where d: "step e c = Some d" "run es d = Some c'"
    by (auto split: option.splits)
  with Cons.prems have "d = c" by (auto dest: step_settled)
  with Cons d show ?case by simp
qed

lemma step_changes_view:
  "consistent c \<Longrightarrow> step e c = Some c' \<Longrightarrow> view c' \<noteq> view c
   \<Longrightarrow> \<exists>gs. e = Fulfil gs \<and> view c = Loading \<and> view c' = Loaded gs"
  by (cases e)
     (auto simp: consistent_def view_def componentDidMount_def componentDidMount_resume_def
                 setState_def split: if_splits option.splits)

lemma history_shape:
  "consistent c \<Longrightarrow> guilds (state c) = None \<Longrightarrow> run es c = Some c'
   \<Longrightarrow> \<exists>n m gs. history es c = replicate (Suc n) Loading @ replicate m (Loaded gs)"
proof (induction es arbitrary: c)
  case Nil
  have "history [] c = replicate (Suc 0) Loading @ replicate 0 (Loaded [])"
    using Nil by (simp add: view_def)
  then show ?case by blast
next
  case (Cons e es)
  from Cons.prems obtain d where d: "step e c = Some d" "run es d = Some c'"
    by (auto split: option.splits)
  have vc: "view c = Loading" using Cons.prems by (simp add: view_def)
  have cd: "consistent d" using Cons.prems d by (auto dest: step_consistent)
  show ?case
  proof (cases "guilds (state d)")
    case None
    from Cons.IH [OF cd None d(2)] obtain n m gs
      where "history es d = replicate (Suc n) Loading @ replicate m (Loaded gs)" by blast
    then have "history (e # es) c = replicate (Suc (Suc n)) Loading @ replicate m (Loaded gs)"
      using d vc by simp
    then show ?thesis by blast
  next
    case (Some gs)
    with cd have "mounted d" "fetch d \<noteq> Pending" by (auto simp: consistent_def)
    from history_settled [OF this d(2)] Some
    have "history es d = replicate (Suc (length es)) (Loaded gs)" by (simp add: view_def)
    then have "history (e # es) c
        = replicate (Suc 0) Loading @ replicate (Suc (length es)) (Loaded gs)"
      using d vc by simp
    then show ?thesis by blast
  qed
qed

lemma transitions_replicate: "transitions (replicate n a) = 0"
proof (induction n)
  case 0
  then show ?case by simp
next
  case (Suc n)
  then show ?case by (cases n) simp_all
qed

lemma transitions_two_phases: "transitions (replicate n a @ replicate m b) \<le> 1"
proof (induction n)
  case 0
  then show ?case by (simp add: transitions_replicate)
next
  case (Suc n)
  show ?case
  proof (cases n)
    case 0
    show ?thesis
    proof (cases m)
      case 0
      with \<open>n = 0\<close> show ?thesis by simp
    next
      case (Suc j)
      have "transitions (b # replicate j b) = 0"
        using transitions_replicate [of "Suc j" b] by simp
      with \<open>n = 0\<close> Suc show ?thesis by simp
    qed
  next
    case (Suc k)
    with Suc.IH show ?thesis by simp
  qed
qed


lemma run_append:
  "run (es @ es') c = (case run es c of None \<Rightarrow> None | Some d \<Rightarrow> run es' d)"
  by (induction es arbitrary: c) (simp_all split: option.splits)

lemma run_mounted:
  "run es c = Some c' \<Longrightarrow> mounted c' \<longleftrightarrow> mounted c \<or> Mount \<in> set es"
proof (induction es arbitrary: c)
  case Nil
  then show ?case by simp
next
  case (Cons e es)
  from Cons.prems obtain d where d: "step e c = Some d" "run es d = Some c'"
    by (auto split: option.splits)
  have "mounted d \<longleftrightarrow> mounted c \<or> e = Mount"
    using d(1) by (cases e) (auto simp: componentDidMount_def componentDidMount_resume_def
                                        setState_def split: if_splits)
  with Cons.IH [OF d(2)] show ?case by auto
qed

lemma step_keeps_calls:
  "step e c = Some c' \<Longrightarrow> e \<noteq> Mount \<Longrightarrow> calls c' = calls c"
  by (cases e) (auto simp: componentDidMount_resume_def setState_def split: if_splits)

text \<open>
  C3. In every state that an instance reaches before its fetch has been fulfilled
  (before mounting, while the promise is pending, or after a rejection) the stored
  \<open>guilds\<close> is still the initial \<open>null\<close>, and the content that the view renders is the
  paragraph with the literal text "Loading servers...".
\<close>

theorem loading_until_fulfilled:
  assumes "run es constructed = Some c" and "fetch c \<noteq> Fulfilled"
  shows "guilds (state c) = None
    \<and> content (state c) = Element (Host ''p'') None [] [Text ''Loading servers...'']
    \<and> children (render (state c)) ! 1 = content (state c)
    \<and> texts (render (state c)) = [''Servers'', ''Loading servers...'']"
proof -
  have "consistent c" using assms(1) consistent_constructed by (rule run_consistent [rotated])
  with assms(2) have "guilds (state c) = None" by (simp add: consistent_def)
  then show ?thesis by (simp add: content_def render_def)
qed

theorem loading_until_fulfilled_witness:
  "run [Render, Mount, Render] constructed
     = Some \<lparr>state = \<lparr>guilds = None\<rparr>, mounted = True, fetch = Pending,
             calls = [Get ''/api/guilds'']\<rparr>
   \<and> Pending \<noteq> Fulfilled
   \<and> texts (render \<lparr>guilds = None\<rparr>) = [''Servers'', ''Loading servers...'']"
proof -
  have r: "run [Render, Mount, Render] constructed
     = Some \<lparr>state = \<lparr>guilds = None\<rparr>, mounted = True, fetch = Pending,
             calls = [Get ''/api/guilds'']\<rparr>"
    by (simp add: constructed_def initial_state_def componentDidMount_def)
  from loading_until_fulfilled [OF r] r show ?thesis by simp
qed

text \<open>
  C4. Along every sequence of events the view state starts as \<open>Loading\<close>, consists of a
  run of \<open>Loading\<close> followed by a (possibly empty) run of one and the same \<open>Loaded\<close> value,
  and so changes at most once; a step changes it only when the promise is fulfilled, from
  \<open>Loading\<close> to \<open>Loaded\<close>; and once it is \<open>Loaded\<close> it keeps that value whatever happens
  afterwards.
\<close>

theorem loading_then_loaded:
  assumes "run es constructed = Some c"
  shows "hd (history es constructed) = Loading
    \<and> (\<exists>n m gs. history es constructed = replicate (Suc n) Loading @ replicate m (Loaded gs))
    \<and> transitions (history es constructed) \<le> 1
    \<and> (\<forall>e c'. step e c = Some c' \<longrightarrow> view c' \<noteq> view c
          \<longrightarrow> (\<exists>gs. e = Fulfil gs \<and> view c = Loading \<and> view c' = Loaded gs))
    \<and> (\<forall>gs es' c'. view c = Loaded gs \<longrightarrow> run es' c = Some c' \<longrightarrow> view c' = Loaded gs)"
proof -
  have cc: "consistent c" using assms consistent_constructed by (rule run_consistent [rotated])
  have "guilds (state constructed) = None" by (simp add: constructed_def initial_state_def)
  from history_shape [OF consistent_constructed this assms]
  obtain n m gs where h: "history es constructed = replicate (Suc n) Loading @ replicate m (Loaded gs)"
    by blast
  then have a: "hd (history es constructed) = Loading" by simp
  have b: "transitions (history es constructed) \<le> 1"
    unfolding h by (rule transitions_two_phases)
  have c: "\<forall>e c'. step e c = Some c' \<longrightarrow> view c' \<noteq> view c
          \<longrightarrow> (\<exists>gs. e = Fulfil gs \<and> view c = Loading \<and> view c' = Loaded gs)"
    using cc by (blast dest: step_changes_view)
  have d: "view c' = Loaded gs'" if "view c = Loaded gs'" "run es' c = Some c'" for gs' es' c'
  proof -
    from that(1) have "guilds (state c) \<noteq> None" by (auto simp: view_def split: option.splits)
    with cc have "mounted c" "fetch c \<noteq> Pending" by (auto simp: consistent_def)
    from run_settled [OF this that(2)] that(1) show ?thesis by simp
  qed
  from a b c d h show ?thesis by blast
qed

theorem loading_then_loaded_witness:
  "run [Mount, Render, Fulfil [\<lparr>guild_id = ''7'', name = ''a''\<rparr>], Render] constructed
     = Some \<lparr>state = \<lparr>guilds = Some [\<lparr>guild_id = ''7'', name = ''a''\<rparr>]\<rparr>, mounted = True,
             fetch = Fulfilled, calls = [Get ''/api/guilds'']\<rparr>
   \<and> history [Mount, Render, Fulfil [\<lparr>guild_id = ''7'', name = ''a''\<rparr>], Render] constructed
     = [Loading, Loading, Loading, Loaded [\<lparr>guild_id = ''7'', name = ''a''\<rparr>],
        Loaded [\<lparr>guild_id = ''7'', name = ''a''\<rparr>]]
   \<and> transitions
       (history [Mount, Render, Fulfil [\<lparr>guild_id = ''7'', name = ''a''\<rparr>], Render] constructed)
     \<le> 1"
proof -
  have r: "run [Mount, Render, Fulfil [\<lparr>guild_id = ''7'', name = ''a''\<rparr>], Render] constructed
     = Some \<lparr>state = \<lparr>guilds = Some [\<lparr>guild_id = ''7'', name = ''a''\<rparr>]\<rparr>, mounted = True,
             fetch = Fulfilled, calls = [Get ''/api/guilds'']\<rparr>"
    by (simp add: constructed_def initial_state_def componentDidMount_def
                  componentDidMount_resume_def setState_def)
  have h: "history [Mount, Render, Fulfil [\<lparr>guild_id = ''7'', name = ''a''\<rparr>], Render] constructed
     = [Loading, Loading, Loading, Loaded [\<lparr>guild_id = ''7'', name = ''a''\<rparr>],
        Loaded [\<lparr>guild_id = ''7'', name = ''a''\<rparr>]]"
    by (simp add: constructed_def initial_state_def componentDidMount_def
                  componentDidMount_resume_def setState_def view_def)
  from loading_then_loaded [OF r] r h show ?thesis by blast
qed

text \<open>
  C5. Once the promise of the fetch has been rejected, the stored state is the initial
  one and stays so whatever happens afterwards: the view state remains \<open>Loading\<close> and every
  later rendering is the loading placeholder, whose only texts are the heading and
  "Loading servers...", so no error message appears.
\<close>

theorem rejected_stays_loading:
  assumes "run es constructed = Some c" and "fetch c = Rejected" and "run es' c = Some c'"
  shows "state c = initial_state \<and> state c' = initial_state \<and> fetch c' = Rejected
    \<and> view c' = Loading
    \<and> render (state c') = render initial_state
    \<and> texts (render (state c')) = [''Servers'', ''Loading servers...'']"
proof -
  have cc: "consistent c" using assms(1) consistent_constructed by (rule run_consistent [rotated])
  with assms(2) have m: "mounted c" "fetch c \<noteq> Pending" and g: "guilds (state c) = None"
    by (auto simp: consistent_def)
  from run_settled [OF m assms(3)] have "c' = c" .
  moreover from g have "state c = initial_state" by (simp add: initial_state_def)
  ultimately show ?thesis using assms(2)
    by (simp add: view_def initial_state_def render_def content_def)
qed

theorem rejected_stays_loading_witness:
  "run [Mount, Render, Reject] constructed
     = Some \<lparr>state = \<lparr>guilds = None\<rparr>, mounted = True, fetch = Rejected,
             calls = [Get ''/api/guilds'']\<rparr>
   \<and> run [Render, Render] \<lparr>state = \<lparr>guilds = None\<rparr>, mounted = True, fetch = Rejected,
             calls = [Get ''/api/guilds'']\<rparr>
     = Some \<lparr>state = \<lparr>guilds = None\<rparr>, mounted = True, fetch = Rejected,
             calls = [Get ''/api/guilds'']\<rparr>
   \<and> step (Fulfil []) \<lparr>state = \<lparr>guilds = None\<rparr>, mounted = True, fetch = Rejected,
             calls = [Get ''/api/guilds'']\<rparr> = None
   \<and> texts (render \<lparr>guilds = None\<rparr>) = [''Servers'', ''Loading servers...'']"
proof -
  have r: "run [Mount, Render, Reject] constructed
     = Some \<lparr>state = \<lparr>guilds = None\<rparr>, mounted = True, fetch = Rejected,
             calls = [Get ''/api/guilds'']\<rparr>"
    by (simp add: constructed_def initial_state_def componentDidMount_def)
  have r': "run [Render, Render] \<lparr>state = \<lparr>guilds = None\<rparr>, mounted = True, fetch = Rejected,
             calls = [Get ''/api/guilds'']\<rparr>
     = Some \<lparr>state = \<lparr>guilds = None\<rparr>, mounted = True, fetch = Rejected,
             calls = [Get ''/api/guilds'']\<rparr>"
    by simp
  have t: "texts (render \<lparr>guilds = None\<rparr>) = [''Servers'', ''Loading servers...'']"
    using rejected_stays_loading [OF r _ r'] by (simp add: initial_state_def)
  have n: "step (Fulfil []) \<lparr>state = \<lparr>guilds = None\<rparr>, mounted = True, fetch = Rejected,
             calls = [Get ''/api/guilds'']\<rparr> = None"
    by simp
  from r r' n t show ?thesis by blast
qed

text \<open>
  C8. An instance has called the API exactly once, with \<open>GET /api/guilds\<close>, from the moment
  it is mounted, and not at all before; no event other than mounting (no rendering, no
  settling of the promise) adds a call, and the record of calls stays that single call
  whatever happens afterwards.
\<close>

theorem one_fetch_on_mount:
  assumes "run es constructed = Some c"
  shows "calls c = (if Mount \<in> set es then [Get ''/api/guilds''] else [])
    \<and> (\<forall>e c'. step e c = Some c' \<longrightarrow> e \<noteq> Mount \<longrightarrow> calls c' = calls c)
    \<and> (\<forall>es' c'. Mount \<in> set es \<longrightarrow> run es' c = Some c' \<longrightarrow> calls c' = [Get ''/api/guilds''])"
proof -
  have cc: "consistent c" using assms consistent_constructed by (rule run_consistent [rotated])
  have m: "mounted c \<longleftrightarrow> Mount \<in> set es"
    using run_mounted [OF assms] by (simp add: constructed_def)
  have a: "calls c = (if Mount \<in> set es then [Get ''/api/guilds''] else [])"
    using cc m by (simp add: consistent_def)
  have b: "\<forall>e c'. step e c = Some c' \<longrightarrow> e \<noteq> Mount \<longrightarrow> calls c' = calls c"
    by (blast dest: step_keeps_calls)
  have c: "calls c' = [Get ''/api/guilds'']" if "Mount \<in> set es" "run es' c = Some c'" for es' c'
  proof -
    have "consistent c'" using that(2) cc by (rule run_consistent [rotated])
    moreover have "mounted c'" using run_mounted [OF that(2)] m that(1) by simp
    ultimately show ?thesis by (simp add: consistent_def)
  qed
  from a b c show ?thesis by blast
qed

theorem one_fetch_on_mount_witness:
  "run [Render, Mount, Render, Fulfil [], Render] constructed
     = Some \<lparr>state = \<lparr>guilds = Some []\<rparr>, mounted = True, fetch = Fulfilled,
             calls = [Get ''/api/guilds'']\<rparr>
   \<and> calls \<lparr>state = \<lparr>guilds = Some []\<rparr>, mounted = True, fetch = Fulfilled,
             calls = [Get ''/api/guilds'']\<rparr> = [Get ''/api/guilds'']
   \<and> step Mount \<lparr>state = \<lparr>guilds = Some []\<rparr>, mounted = True, fetch = Fulfilled,
             calls = [Get ''/api/guilds'']\<rparr> = None"
proof -
  have r: "run [Render, Mount, Render, Fulfil [], Render] constructed
     = Some \<lparr>state = \<lparr>guilds = Some []\<rparr>, mounted = True, fetch = Fulfilled,
             calls = [Get ''/api/guilds'']\<rparr>"
    by (simp add: constructed_def initial_state_def componentDidMount_def
                  componentDidMount_resume_def setState_def)
  from one_fetch_on_mount [OF r] r show ?thesis by simp
qed

section \<open>Notice\<close>

text \<open>
  C6. A \<open>Notice\<close> with mood \<open>danger\<close> takes the border and background colours of the
  \<open>danger\<close> entry of \<open>MOODS\<close>, and a \<open>Notice\<close> without a mood those of the \<open>default\<close>
  entry; each mood of the enumeration gives the pair of its own entry, whatever the other
  props are: the colours and the whole style depend on the props through \<open>mood\<close> alone.
\<close>

theorem notice_colours:
  "border \<lparr>mood = Some ''danger'', \<dots> = r\<rparr> = Inr (Str ''hsl(0, 100%, 85%)'')
   \<and> background \<lparr>mood = Some ''danger'', \<dots> = r\<rparr> = Inr (Str ''hsl(0, 100%, 95%)'')
   \<and> border \<lparr>mood = None, \<dots> = r\<rparr> = Inr (Str ''hsl(220, 100%, 85%)'')
   \<and> background \<lparr>mood = None, \<dots> = r\<rparr> = Inr (Str ''hsl(220, 100%, 95%)'')
   \<and> border \<lparr>mood = Some ''default'', \<dots> = r\<rparr> = Inr (Str ''hsl(220, 100%, 85%)'')
   \<and> background \<lparr>mood = Some ''default'', \<dots> = r\<rparr> = Inr (Str ''hsl(220, 100%, 95%)'')
   \<and> border \<lparr>mood = Some ''success'', \<dots> = r\<rparr> = Inr (Str ''hsl(120, 100%, 75%)'')
   \<and> background \<lparr>mood = Some ''success'', \<dots> = r\<rparr> = Inr (Str ''hsl(120, 100%, 95%)'')
   \<and> Notice \<lparr>mood = Some ''danger'', \<dots> = r\<rparr>
       = Inr [''padding: 0.5em 1em;'', ''border: solid 1px hsl(0, 100%, 85%);'',
              ''background: hsl(0, 100%, 95%);'', ''border-radius: 0.15rem;'',
              ''margin: 1rem 0;'']
   \<and> Notice \<lparr>mood = None, \<dots> = r\<rparr>
       = Inr [''padding: 0.5em 1em;'', ''border: solid 1px hsl(220, 100%, 85%);'',
              ''background: hsl(220, 100%, 95%);'', ''border-radius: 0.15rem;'',
              ''margin: 1rem 0;'']
   \<and> border p = border \<lparr>mood = mood p\<rparr>
   \<and> background p = background \<lparr>mood = mood p\<rparr>
   \<and> Notice p = Notice \<lparr>mood = mood p\<rparr>"
  by (simp add: Notice_def border_def background_def property_def mood_or_default_def MOODS_def)

text \<open>
  C7. The lookup produces a colour for exactly the moods \<open>default\<close>, \<open>danger\<close> and
  \<open>success\<close>, and for an absent mood. For any other mood \<open>MOODS\<close> has no entry, nothing
  guards the access and no colour comes out: indexing \<open>undefined\<close> throws a TypeError, and
  for a name that every object inherits (such as \<open>constructor\<close>) the index of the
  inherited member is \<open>undefined\<close>.
\<close>

theorem notice_lookup:
  "(colour (border \<lparr>mood = Some m\<rparr>) \<noteq> None \<longleftrightarrow> m \<in> {''default'', ''danger'', ''success''})
   \<and> (colour (background \<lparr>mood = Some m\<rparr>) \<noteq> None \<longleftrightarrow> m \<in> {''default'', ''danger'', ''success''})
   \<and> colour (border \<lparr>mood = None\<rparr>) \<noteq> None
   \<and> colour (background \<lparr>mood = None\<rparr>) \<noteq> None
   \<and> (map_of MOODS m = None \<longleftrightarrow> m \<notin> {''default'', ''danger'', ''success''})
   \<and> (m \<notin> {''default'', ''danger'', ''success''} \<longrightarrow>
        border \<lparr>mood = Some m\<rparr>
          = (if m \<in> set Object_prototype then Inr Undefined else Inl TypeError)
        \<and> background \<lparr>mood = Some m\<rparr>
          = (if m \<in> set Object_prototype then Inr Undefined else Inl TypeError))"
  by (simp add: border_def background_def property_def mood_or_default_def MOODS_def)

theorem notice_lookup_witness:
  "''warning'' \<notin> {''default'', ''danger'', ''success''}
   \<and> border \<lparr>mood = Some ''warning''\<rparr> = Inl TypeError
   \<and> background \<lparr>mood = Some ''warning''\<rparr> = Inl TypeError
   \<and> colour (border \<lparr>mood = Some ''warning''\<rparr>) = None"
  using notice_lookup [of "''warning''"]
  by (simp add: Object_prototype_def)

end
